theory Spec2Isabelle
  imports Complex_Main
begin

section \<open>The Timescales grid characterizer and irregular DFT\<close>

text \<open>
  A shallow embedding of \<^verbatim>\<open>specialfreqs.cpp\<close> (\<^verbatim>\<open>deltaT\<close>, \<^verbatim>\<open>maxFreq\<close>,
  \<^verbatim>\<open>pseudoNyquistFreq\<close>) and \<^verbatim>\<open>dft.cpp\<close> (\<^verbatim>\<open>dft\<close>) of namespace \<^verbatim>\<open>kpftimes\<close>.

  Conventions of the embedding:
  \<^item> \<^verbatim>\<open>double\<close> is \<^typ>\<open>real\<close> and \<^verbatim>\<open>std::complex<double>\<close> is \<^typ>\<open>complex\<close>: arithmetic is
    exact, and there is neither rounding nor NaN nor infinity;
  \<^item> \<^verbatim>\<open>DoubleVec\<close> and \<^verbatim>\<open>ComplexVec\<close> are lists, \<^verbatim>\<open>size_t\<close> is \<^typ>\<open>nat\<close>;
  \<^item> a thrown exception is the \<open>Inl\<close> branch of a sum, carrying the exception class and
    its \<^verbatim>\<open>what()\<close> message;
  \<^item> the parameter \<^verbatim>\<open>times\<close> is written \<open>times'\<close>, since \<open>times\<close> is the
    multiplication of HOL;
  \<^item> the output parameter of \<^verbatim>\<open>dft\<close> is passed in and returned, so that its contents
    after a failed call can be read.
\<close>

subsection \<open>Exceptions\<close>

datatype error =
    InvalidArgument string   \<comment> \<open>\<^verbatim>\<open>std::invalid_argument\<close>\<close>
  | BadLightCurve string     \<comment> \<open>\<^verbatim>\<open>kpftimes::except::BadLightCurve\<close>\<close>
  | NotSorted string         \<comment> \<open>\<^verbatim>\<open>kpfutils::except::NotSorted\<close>\<close>
  | NegativeFreq string      \<comment> \<open>\<^verbatim>\<open>kpftimes::except::NegativeFreq\<close>\<close>

text \<open>The messages of the exceptions, as the string literals of the source.\<close>

definition deltaT_size_msg :: string where
  "deltaT_size_msg =
     ''Parameter 'times' in deltaT() contains fewer than 2 observations''"

definition deltaT_unique_msg :: string where
  "deltaT_unique_msg =
     ''Parameter 'times' in deltaT() contains only one unique value''"

definition maxFreq_size_msg :: string where
  "maxFreq_size_msg =
     ''Parameter 'times' in maxFreq() contains fewer than 2 observations''"

definition maxFreq_sort_msg :: string where
  "maxFreq_sort_msg = ''Parameter 'times' in maxFreq() is unsorted''"

definition maxFreq_unique_msg :: string where
  "maxFreq_unique_msg =
     ''Parameter 'times' in maxFreq() contains only one unique value''"

definition dft_unique_msg :: string where
  "dft_unique_msg = ''Argument 'times' to dft() contains only one unique date''"

definition dft_sort_msg :: string where
  "dft_sort_msg = ''Argument 'times' to dft() is not sorted in ascending order''"

subsection \<open>\<^verbatim>\<open>deltaT\<close>\<close>

text \<open>
  The scan of \<^verbatim>\<open>deltaT\<close>: the iterator runs over the whole vector, and the two
  comparisons are independent \<^verbatim>\<open>if\<close> statements.
\<close>

fun deltaT_scan :: "real list \<Rightarrow> real \<Rightarrow> real \<Rightarrow> real \<times> real" where
  "deltaT_scan [] tMin tMax = (tMin, tMax)"
| "deltaT_scan (x # xs) tMin tMax =
     deltaT_scan xs (if x < tMin then x else tMin) (if x > tMax then x else tMax)"

definition deltaT :: "real list \<Rightarrow> error + real" where
  "deltaT times' =
     (if length times' < 2 then
        Inl (InvalidArgument deltaT_size_msg)
      else
        (case deltaT_scan times' (hd times') (hd times') of
           (tMin, tMax) \<Rightarrow>
             if tMax \<le> tMin then
               Inl (BadLightCurve deltaT_unique_msg)
             else Inr (tMax - tMin)))"

subsection \<open>\<^verbatim>\<open>pseudoNyquistFreq\<close>\<close>

text \<open>An exception of \<^verbatim>\<open>deltaT\<close> propagates unchanged through the division.\<close>

definition pseudoNyquistFreq :: "real list \<Rightarrow> error + real" where
  "pseudoNyquistFreq times' =
     (case deltaT times' of
        Inl e \<Rightarrow> Inl e
      | Inr dt \<Rightarrow> Inr (0.5 * real (length times') / dt))"

subsection \<open>\<^verbatim>\<open>maxFreq\<close>\<close>

text \<open>
  The \<^verbatim>\<open>while\<close> loop of \<^verbatim>\<open>maxFreq\<close>: \<^verbatim>\<open>t1\<close> and \<^verbatim>\<open>t2 = t1 + 1\<close> walk the vector
  together until \<^verbatim>\<open>t2\<close> reaches the end. The list argument is the part of the vector
  from \<^verbatim>\<open>t1\<close> on.
\<close>

fun maxFreq_scan :: "real list \<Rightarrow> real \<Rightarrow> real" where
  "maxFreq_scan (t1 # t2 # rest) minDeltaT =
     maxFreq_scan (t2 # rest)
       (if t2 > t1 \<and> (t2 - t1 < minDeltaT \<or> minDeltaT = 0) then t2 - t1 else minDeltaT)"
| "maxFreq_scan _ minDeltaT = minDeltaT"

text \<open>
  \<^verbatim>\<open>kpfutils::isSorted\<close> is declared in \<^verbatim>\<open>common/stats.tmp.h\<close>, whose text is not part
  of the sources at hand. \<^verbatim>\<open>maxFreq\<close> takes it as the parameter \<open>isSorted\<close>.
\<close>

definition maxFreq :: "(real list \<Rightarrow> bool) \<Rightarrow> real list \<Rightarrow> error + real" where
  "maxFreq isSorted times' =
     (if length times' < 2 then
        Inl (InvalidArgument maxFreq_size_msg)
      else if \<not> isSorted times' then
        Inl (NotSorted maxFreq_sort_msg)
      else
        (let minDeltaT = maxFreq_scan times' 0 in
         if minDeltaT = 0 then
           Inl (BadLightCurve maxFreq_unique_msg)
         else Inr (0.5 / minDeltaT)))"

text \<open>
  Modelled from the spec: \<^verbatim>\<open>kpfutils::isSorted\<close> (\<^verbatim>\<open>common/stats.tmp.h\<close>) is missing.
  The specification asks of \<^verbatim>\<open>maxFreq\<close> that inputs with "at least one inversion" fail
  with not-sorted, and that a series in which "every sample shares the same timestamp"
  fails with degenerate-light-curve "once sortedness holds", the check being made "in a
  single linear pass". So the check rejects a list exactly when some entry is smaller
  than its predecessor, and equal neighbours pass. This is also what \<^verbatim>\<open>maxFreq\<close> itself
  presupposes: its loop guards each difference with \<^verbatim>\<open>*t2 > *t1\<close> and has a branch for
  the case that no positive difference was found, and its documentation requires
  \<^verbatim>\<open>times\<close> "sorted in ascending order" and promises \<^verbatim>\<open>BadLightCurve\<close> for at most
  one distinct value. The words "strictly ascending order (no two adjacent equal or
  inverted entries)" of the same specification are at odds with all of these and are not
  followed.
\<close>

fun isSorted :: "real list \<Rightarrow> bool" where
  "isSorted (x # y # rest) = (\<not> y < x \<and> isSorted (y # rest))"
| "isSorted _ = True"

subsection \<open>\<^verbatim>\<open>dft\<close>\<close>

text \<open>
  The validation loop. It stops early once a second value has been seen and a descent
  has been found; \<^verbatim>\<open>times[0]\<close>, \<^verbatim>\<open>times[i-1]\<close> and \<^verbatim>\<open>times[i]\<close> are read only while
  \<^verbatim>\<open>i < nTimes\<close>.
\<close>

function dft_check :: "real list \<Rightarrow> nat \<Rightarrow> bool \<Rightarrow> bool \<Rightarrow> bool \<times> bool" where
  "dft_check times' i diffValues sortedTimes =
     (if i < length times' \<and> (\<not> diffValues \<or> sortedTimes) then
        dft_check times' (i + 1)
          (if \<not> diffValues \<and> times' ! i \<noteq> times' ! 0 then True else diffValues)
          (if sortedTimes \<and> i > 0 \<and> times' ! (i - 1) > times' ! i then False
           else sortedTimes)
      else (diffValues, sortedTimes))"
  by pat_completeness auto
termination
  by (relation "measure (\<lambda>(times', i, d, s). length times' - i)") auto

declare dft_check.simps [simp del]

text \<open>
  \<^verbatim>\<open>boost::lexical_cast<string>\<close> of a \<^verbatim>\<open>size_t\<close>: the decimal numeral, without
  leading zeros. The conversion cannot fail, so the \<^verbatim>\<open>catch\<close> branch of \<^verbatim>\<open>dft\<close> with
  the shorter message is never taken.
\<close>

definition digit :: "nat \<Rightarrow> char" where
  "digit d = ''0123456789'' ! d"

function lexical_cast :: "nat \<Rightarrow> string" where
  "lexical_cast n =
     (if n < 10 then [digit n] else lexical_cast (n div 10) @ [digit (n mod 10)])"
  by pat_completeness auto
termination
  by (relation "measure id") auto

declare lexical_cast.simps [simp del]

definition dft_length_msg :: "nat \<Rightarrow> nat \<Rightarrow> string" where
  "dft_length_msg nTimes nFluxes =
     ''Arguments 'times' and 'fluxes' to dft() are not the same length (gave ''
     @ lexical_cast nTimes @ '' for times and ''
     @ lexical_cast nFluxes @ '' for fluxes)''"

text \<open>
  The two summation loops. The inner loop adds the term of sample \<open>j\<close> to
  \<^verbatim>\<open>tempDft[i]\<close> in place; \<^verbatim>\<open>-I * omega * times[j]\<close> associates to the left.
\<close>

definition dft_term :: "real \<Rightarrow> real \<Rightarrow> real \<Rightarrow> complex" where
  "dft_term flux omega t =
     complex_of_real flux * exp (- \<i> * complex_of_real omega * complex_of_real t)"

function dft_inner ::
  "real list \<Rightarrow> real list \<Rightarrow> real \<Rightarrow> nat \<Rightarrow> nat \<Rightarrow> complex list \<Rightarrow> complex list" where
  "dft_inner times' fluxes omega i j tempDft =
     (if j < length times' then
        dft_inner times' fluxes omega i (j + 1)
          (tempDft[i := tempDft ! i + dft_term (fluxes ! j) omega (times' ! j)])
      else tempDft)"
  by pat_completeness auto
termination
  by (relation "measure (\<lambda>(times', fluxes, omega, i, j, tempDft). length times' - j)") auto

declare dft_inner.simps [simp del]

function dft_outer ::
  "real list \<Rightarrow> real list \<Rightarrow> real list \<Rightarrow> nat \<Rightarrow> complex list \<Rightarrow> complex list" where
  "dft_outer times' fluxes freqs i tempDft =
     (if i < length freqs then
        dft_outer times' fluxes freqs (i + 1)
          (dft_inner times' fluxes (2 * pi * freqs ! i) i 0 tempDft)
      else tempDft)"
  by pat_completeness auto
termination
  by (relation "measure (\<lambda>(times', fluxes, freqs, i, tempDft). length freqs - i)") auto

declare dft_outer.simps [simp del]

text \<open>
  \<^verbatim>\<open>dft\<close> itself. The second component of the result is the content of the output
  argument when the call ends: the argument as passed if an exception leaves the
  function, and the temporary buffer after the final \<^verbatim>\<open>swap\<close>.
\<close>

definition dft ::
  "real list \<Rightarrow> real list \<Rightarrow> real list \<Rightarrow> complex list \<Rightarrow> (error + unit) \<times> complex list" where
  "dft times' fluxes freqs out =
     (let nTimes = length times'; nFreqs = length freqs in
      case dft_check times' 0 False True of
        (diffValues, sortedTimes) \<Rightarrow>
          if \<not> diffValues then
            (Inl (BadLightCurve dft_unique_msg), out)
          else if \<not> sortedTimes then
            (Inl (NotSorted dft_sort_msg), out)
          else if length fluxes \<noteq> nTimes then
            (Inl (InvalidArgument (dft_length_msg nTimes (length fluxes))), out)
          else
            (Inr (), dft_outer times' fluxes freqs 0 (replicate nFreqs 0)))"

subsection \<open>Auxiliary notions for the statements\<close>

text \<open>
  The differences of adjacent entries, in the order of the vector, and the update that
  one pass of the loop of \<^verbatim>\<open>maxFreq\<close> applies to \<^verbatim>\<open>minDeltaT\<close> for one difference.
  Both serve the proofs only.
\<close>

fun adjacent_gaps :: "real list \<Rightarrow> real list" where
  "adjacent_gaps (t1 # t2 # rest) = (t2 - t1) # adjacent_gaps (t2 # rest)"
| "adjacent_gaps _ = []"

definition gap_step :: "real \<Rightarrow> real \<Rightarrow> real" where
  "gap_step m d = (if 0 < d \<and> (d < m \<or> m = 0) then d else m)"

text \<open>The number that a string of decimal digits denotes, to read a message back.\<close>

definition decimal_value :: "string \<Rightarrow> nat" where
  "decimal_value cs = foldl (\<lambda>a c. 10 * a + (of_char c - 48)) 0 cs"

section \<open>The time span: \<^verbatim>\<open>deltaT\<close> and \<^verbatim>\<open>pseudoNyquistFreq\<close>\<close>

lemma deltaT_scan_eq:
  "deltaT_scan xs tMin tMax = (Min (insert tMin (set xs)), Max (insert tMax (set xs)))"
proof (induction xs arbitrary: tMin tMax)
  case Nil
  then show ?case by simp
next
  case (Cons x xs)
  have a: "Min (insert (if x < tMin then x else tMin) (set xs)) =
           Min (insert tMin (insert x (set xs)))"
    by (cases "set xs = {}") (auto simp: min_def)
  have b: "Max (insert (if tMax < x then x else tMax) (set xs)) =
           Max (insert tMax (insert x (set xs)))"
    by (cases "set xs = {}") (auto simp: max_def)
  show ?case by (simp only: deltaT_scan.simps Cons.IH a b list.simps)
qed

lemma deltaT_eq:
  "deltaT times' =
     (if length times' < 2 then Inl (InvalidArgument deltaT_size_msg)
      else if Max (set times') \<le> Min (set times') then Inl (BadLightCurve deltaT_unique_msg)
      else Inr (Max (set times') - Min (set times')))"
proof (cases times')
  case Nil
  then show ?thesis by (simp add: deltaT_def)
next
  case (Cons x xs)
  then have "insert (hd times') (set times') = set times'" by auto
  then show ?thesis
    by (simp add: deltaT_def deltaT_scan_eq)
qed

lemma Max_le_Min_iff:
  "xs \<noteq> [] \<Longrightarrow>
   Max (set xs) \<le> Min (set xs) \<longleftrightarrow> (\<forall>t \<in> set xs. \<forall>u \<in> set xs. t = (u::real))"
proof
  assume ne: "xs \<noteq> []" and le: "Max (set xs) \<le> Min (set xs)"
  show "\<forall>t \<in> set xs. \<forall>u \<in> set xs. t = u"
  proof (intro ballI)
    fix t u assume t: "t \<in> set xs" and u: "u \<in> set xs"
    have "Min (set xs) \<le> t" "t \<le> Max (set xs)" "Min (set xs) \<le> u" "u \<le> Max (set xs)"
      using t u by simp_all
    with le show "t = u" by linarith
  qed
next
  assume ne: "xs \<noteq> []" and eq: "\<forall>t \<in> set xs. \<forall>u \<in> set xs. t = u"
  have "Max (set xs) \<in> set xs" "Min (set xs) \<in> set xs"
    using ne Max_in [of "set xs"] Min_in [of "set xs"] by simp_all
  with eq show "Max (set xs) \<le> Min (set xs)" by auto
qed

text \<open>
  Claim C5. For every list \<open>times'\<close>, in any order: \<^verbatim>\<open>deltaT\<close> throws
  \<^verbatim>\<open>invalid_argument\<close> exactly when the list has fewer than two elements; otherwise it
  throws \<^verbatim>\<open>BadLightCurve\<close> exactly when the maximum minus the minimum is not strictly
  positive, which is when all values coincide; otherwise it returns the maximum minus
  the minimum. The length is checked first: a list that is too short never gives
  \<^verbatim>\<open>BadLightCurve\<close>, and no other exception occurs.
\<close>

theorem deltaT_spec:
  "(deltaT times' = Inl (InvalidArgument deltaT_size_msg) \<longleftrightarrow> length times' < 2) \<and>
   (deltaT times' = Inl (BadLightCurve deltaT_unique_msg) \<longleftrightarrow>
      2 \<le> length times' \<and> \<not> 0 < Max (set times') - Min (set times')) \<and>
   (deltaT times' = Inl (BadLightCurve deltaT_unique_msg) \<longleftrightarrow>
      2 \<le> length times' \<and> (\<forall>t \<in> set times'. \<forall>u \<in> set times'. t = u)) \<and>
   (2 \<le> length times' \<and> 0 < Max (set times') - Min (set times') \<longrightarrow>
      deltaT times' = Inr (Max (set times') - Min (set times'))) \<and>
   (\<forall>e. deltaT times' = Inl e \<longrightarrow>
      e = InvalidArgument deltaT_size_msg \<or> e = BadLightCurve deltaT_unique_msg)"
proof (cases "length times' < 2")
  case True
  then show ?thesis by (simp add: deltaT_eq)
next
  case False
  then have "times' \<noteq> []" by auto
  then have key: "Max (set times') \<le> Min (set times') \<longleftrightarrow>
                  (\<forall>t \<in> set times'. \<forall>u \<in> set times'. t = u)"
    by (rule Max_le_Min_iff)
  show ?thesis
  proof (cases "Max (set times') \<le> Min (set times')")
    case True
    then show ?thesis using False by (simp add: deltaT_eq key [symmetric])
  next
    case nondeg: False
    then show ?thesis using False by (simp add: deltaT_eq key [symmetric])
  qed
qed

theorem deltaT_spec_witness:
  "deltaT [] = Inl (InvalidArgument deltaT_size_msg) \<and>
   deltaT [5] = Inl (InvalidArgument deltaT_size_msg) \<and>
   deltaT [4, 4, 4] = Inl (BadLightCurve deltaT_unique_msg) \<and>
   deltaT [3, 1, 2] = Inr 2"
  using deltaT_spec [of "[]"] deltaT_spec [of "[5]"] deltaT_spec [of "[4, 4, 4]"]
    deltaT_spec [of "[3, 1, 2]"]
  by simp

text \<open>
  Claim C9. For every list \<open>times'\<close>, \<^verbatim>\<open>pseudoNyquistFreq\<close> fails with exactly the
  exception of \<^verbatim>\<open>deltaT\<close> (\<^verbatim>\<open>invalid_argument\<close> below two elements,
  \<^verbatim>\<open>BadLightCurve\<close> when all values coincide), and when \<^verbatim>\<open>deltaT\<close> returns \<open>dt\<close> it
  returns \<open>0.5 * N / dt\<close>, \<open>N\<close> the number of elements. No order of the elements is
  required: two distinct values anywhere in the list are enough for a result.
\<close>

theorem pseudoNyquistFreq_spec:
  "(\<forall>e. deltaT times' = Inl e \<longrightarrow> pseudoNyquistFreq times' = Inl e) \<and>
   (\<forall>dt. deltaT times' = Inr dt \<longrightarrow>
      pseudoNyquistFreq times' = Inr (0.5 * real (length times') / dt)) \<and>
   (length times' < 2 \<longrightarrow>
      pseudoNyquistFreq times' = Inl (InvalidArgument deltaT_size_msg)) \<and>
   (2 \<le> length times' \<and> (\<forall>t \<in> set times'. \<forall>u \<in> set times'. t = u) \<longrightarrow>
      pseudoNyquistFreq times' = Inl (BadLightCurve deltaT_unique_msg)) \<and>
   (2 \<le> length times' \<and> (\<exists>t \<in> set times'. \<exists>u \<in> set times'. t \<noteq> u) \<longrightarrow>
      pseudoNyquistFreq times' =
        Inr (0.5 * real (length times') / (Max (set times') - Min (set times'))))"
proof -
  have ne: "2 \<le> length times' \<Longrightarrow> times' \<noteq> []" by auto
  show ?thesis
    using Max_le_Min_iff [of times'] ne
    by (auto simp: pseudoNyquistFreq_def deltaT_eq)
qed

theorem pseudoNyquistFreq_spec_witness:
  "pseudoNyquistFreq [7] = Inl (InvalidArgument deltaT_size_msg) \<and>
   pseudoNyquistFreq [4, 4, 4] = Inl (BadLightCurve deltaT_unique_msg) \<and>
   pseudoNyquistFreq [3, 1, 2, 5] = Inr (1 / 2)"
  using pseudoNyquistFreq_spec [of "[7]"] pseudoNyquistFreq_spec [of "[4, 4, 4]"]
    pseudoNyquistFreq_spec [of "[3, 1, 2, 5]"]
  by (simp add: deltaT_eq)

section \<open>The finest sampling interval: \<^verbatim>\<open>maxFreq\<close>\<close>

lemma maxFreq_scan_foldl: "maxFreq_scan xs m = foldl gap_step m (adjacent_gaps xs)"
  by (induction xs m rule: maxFreq_scan.induct) (simp_all add: gap_step_def)

lemma Min_insert_absorb:
  fixes d m :: real
  assumes "finite P" "d \<le> m"
  shows "Min (insert m (insert d P)) = Min (insert d P)"
proof -
  have "Min (insert d P) \<le> d" using assms(1) by (intro Min_le) auto
  then have "min m (Min (insert d P)) = Min (insert d P)" using assms(2) by simp
  then show ?thesis using assms(1) by simp
qed

text \<open>
  \<^verbatim>\<open>minDeltaT = 0\<close> stands for "no positive difference seen so far"; from then on the
  variable holds the least positive difference seen.
\<close>

lemma foldl_gap_step:
  "0 \<le> m \<Longrightarrow> foldl gap_step m ds =
     (if m = 0 \<and> filter (\<lambda>d. 0 < d) ds = [] then 0
      else Min (set (filter (\<lambda>d. 0 < d) ds) \<union> (if 0 < m then {m} else {})))"
proof (induction ds arbitrary: m)
  case Nil
  then show ?case by simp
next
  case (Cons d ds)
  let ?P = "set (filter (\<lambda>d. 0 < d) ds)"
  have m': "0 \<le> gap_step m d" using Cons.prems by (simp add: gap_step_def)
  note IH = Cons.IH [OF m']
  show ?case
  proof (cases "0 < d")
    case False
    then have "gap_step m d = m" by (simp add: gap_step_def)
    then show ?thesis using IH False by simp
  next
    case pos: True
    consider (zero) "m = 0" | (less) "0 < m" "d < m" | (ge) "0 < m" "m \<le> d"
      using Cons.prems by fastforce
    then show ?thesis
    proof cases
      case zero
      then have "gap_step m d = d" using pos by (simp add: gap_step_def)
      then show ?thesis using IH pos zero by simp
    next
      case less
      then have g: "gap_step m d = d" using pos by (simp add: gap_step_def)
      have "Min (insert m (insert d ?P)) = Min (insert d ?P)"
        using less by (intro Min_insert_absorb) simp_all
      then show ?thesis using IH pos less g by (simp add: insert_commute)
    next
      case ge
      then have g: "gap_step m d = m" using pos by (simp add: gap_step_def)
      have "Min (insert d (insert m ?P)) = Min (insert m ?P)"
        using ge by (intro Min_insert_absorb) simp_all
      then show ?thesis using IH pos ge g by (simp add: insert_commute)
    qed
  qed
qed

lemma adjacent_gaps_nth:
  "adjacent_gaps xs = map (\<lambda>i. xs ! Suc i - xs ! i) [0..<length xs - 1]"
proof (induction xs rule: adjacent_gaps.induct)
  case (1 t1 t2 rest)
  have "[0..<Suc (length rest)] = 0 # map Suc [0..<length rest]"
    by (simp add: upt_conv_Cons map_Suc_upt del: upt_Suc)
  then show ?case using 1 by (simp add: comp_def del: upt_Suc)
qed simp_all

lemma pos_gaps_set:
  "{xs ! Suc i - xs ! i | i. Suc i < length xs \<and> xs ! i < xs ! Suc i} =
     set (filter (\<lambda>d. 0 < d) (adjacent_gaps xs))"
  by (auto simp: adjacent_gaps_nth)

lemma maxFreq_eq:
  "maxFreq srt xs =
     (if length xs < 2 then Inl (InvalidArgument maxFreq_size_msg)
      else if \<not> srt xs then Inl (NotSorted maxFreq_sort_msg)
      else if filter (\<lambda>d. 0 < d) (adjacent_gaps xs) = [] then
        Inl (BadLightCurve maxFreq_unique_msg)
      else Inr (0.5 / Min (set (filter (\<lambda>d. 0 < d) (adjacent_gaps xs)))))"
proof -
  let ?P = "filter (\<lambda>d. 0 < d) (adjacent_gaps xs)"
  have "Min (set ?P) \<noteq> 0" if "?P \<noteq> []"
  proof -
    have "set ?P \<noteq> {}" using that by (simp only: set_empty) simp
    then have "Min (set ?P) \<in> set ?P" by (intro Min_in) simp_all
    then show ?thesis by auto
  qed
  then show ?thesis
    using foldl_gap_step [of 0 "adjacent_gaps xs"]
    by (simp add: maxFreq_def maxFreq_scan_foldl Let_def)
qed

lemma isSorted_iff:
  "isSorted xs \<longleftrightarrow> (\<forall>i. Suc i < length xs \<longrightarrow> \<not> xs ! Suc i < xs ! i)"
proof (induction xs rule: isSorted.induct)
  case (1 x y rest)
  have "(\<forall>i. Suc i < length (x # y # rest) \<longrightarrow>
            \<not> (x # y # rest) ! Suc i < (x # y # rest) ! i) \<longleftrightarrow>
        \<not> y < x \<and>
        (\<forall>i. Suc i < length (y # rest) \<longrightarrow> \<not> (y # rest) ! Suc i < (y # rest) ! i)"
    (is "?L \<longleftrightarrow> ?R")
  proof
    assume L: ?L
    have "\<not> y < x" using L [rule_format, of 0] by simp
    moreover have "\<forall>i. Suc i < length (y # rest) \<longrightarrow> \<not> (y # rest) ! Suc i < (y # rest) ! i"
    proof (intro allI impI)
      fix i assume "Suc i < length (y # rest)"
      then show "\<not> (y # rest) ! Suc i < (y # rest) ! i"
        using L [rule_format, of "Suc i"] by simp
    qed
    ultimately show ?R by simp
  next
    assume R: ?R
    show ?L
    proof (intro allI impI)
      fix i assume i: "Suc i < length (x # y # rest)"
      show "\<not> (x # y # rest) ! Suc i < (x # y # rest) ! i"
      proof (cases i)
        case 0
        then show ?thesis using R by simp
      next
        case (Suc k)
        then show ?thesis using R i by simp
      qed
    qed
  qed
  then show ?case using 1 by simp
qed simp_all

lemma isSorted_sorted: "isSorted xs \<longleftrightarrow> sorted xs"
  by (simp add: isSorted_iff sorted_iff_nth_Suc not_less)

text \<open>
  Claim C6. Let \<open>times'\<close> have at least two elements and pass the sortedness check of
  \<^verbatim>\<open>maxFreq\<close> (the check is the parameter \<open>srt\<close>, so the statement holds for every
  implementation of \<^verbatim>\<open>kpfutils::isSorted\<close>). If some adjacent gap is strictly positive,
  \<^verbatim>\<open>maxFreq\<close> returns 0.5 divided by the least strictly positive adjacent gap. If no
  adjacent gap is strictly positive, in particular if all elements are equal, it throws
  \<^verbatim>\<open>BadLightCurve\<close>.
\<close>

theorem maxFreq_nyquist:
  assumes "2 \<le> length times'" and "srt times'"
  shows "((\<exists>i. Suc i < length times' \<and> times' ! i < times' ! Suc i) \<longrightarrow>
            maxFreq srt times' =
              Inr (0.5 / Min {times' ! Suc i - times' ! i | i.
                               Suc i < length times' \<and> times' ! i < times' ! Suc i})) \<and>
         (\<not> (\<exists>i. Suc i < length times' \<and> times' ! i < times' ! Suc i) \<longrightarrow>
            maxFreq srt times' = Inl (BadLightCurve maxFreq_unique_msg)) \<and>
         ((\<forall>t \<in> set times'. \<forall>u \<in> set times'. t = u) \<longrightarrow>
            maxFreq srt times' = Inl (BadLightCurve maxFreq_unique_msg))"
proof -
  let ?G = "{times' ! Suc i - times' ! i | i.
              Suc i < length times' \<and> times' ! i < times' ! Suc i}"
  have G: "?G = set (filter (\<lambda>d. 0 < d) (adjacent_gaps times'))"
    by (rule pos_gaps_set)
  have ex: "(\<exists>i. Suc i < length times' \<and> times' ! i < times' ! Suc i) \<longleftrightarrow> ?G \<noteq> {}"
    by auto
  have eq: "\<not> (\<exists>i. Suc i < length times' \<and> times' ! i < times' ! Suc i)"
    if "\<forall>t \<in> set times'. \<forall>u \<in> set times'. t = u"
  proof
    assume "\<exists>i. Suc i < length times' \<and> times' ! i < times' ! Suc i"
    then obtain i where i: "Suc i < length times'" "times' ! i < times' ! Suc i" by blast
    then have "times' ! i \<in> set times'" "times' ! Suc i \<in> set times'" by simp_all
    with that i(2) show False by fastforce
  qed
  have "maxFreq srt times' = (if ?G = {} then Inl (BadLightCurve maxFreq_unique_msg)
                              else Inr (0.5 / Min ?G))"
    unfolding G using assms by (simp add: maxFreq_eq filter_empty_conv)
  then show ?thesis using ex eq by auto
qed

theorem maxFreq_nyquist_witness:
  "maxFreq sorted [0, 0, 3, 4, 6] = Inr (1 / 2) \<and>
   maxFreq sorted [5, 5, 5] = Inl (BadLightCurve maxFreq_unique_msg)"
proof -
  have a: "\<exists>i. Suc i < length [0, 0, 3, 4, 6 :: real] \<and>
               [0, 0, 3, 4, 6 :: real] ! i < [0, 0, 3, 4, 6] ! Suc i"
    by (rule exI [of _ 1]) simp
  have g: "{[0, 0, 3, 4, 6 :: real] ! Suc i - [0, 0, 3, 4, 6] ! i | i.
            Suc i < length [0, 0, 3, 4, 6 :: real] \<and>
            [0, 0, 3, 4, 6 :: real] ! i < [0, 0, 3, 4, 6] ! Suc i} = {3, 1, 2}"
    unfolding pos_gaps_set by simp
  have b: "\<forall>t \<in> set [5, 5, 5 :: real]. \<forall>u \<in> set [5, 5, 5 :: real]. t = u" by simp
  show ?thesis
    using maxFreq_nyquist [of "[0, 0, 3, 4, 6]" sorted] a
      maxFreq_nyquist [of "[5, 5, 5]" sorted] b
    unfolding g by simp
qed

text \<open>
  Claim C7, as amended. With the sortedness check \<open>isSorted\<close> above: for every \<open>times'\<close>
  of at least two elements in which some entry is strictly smaller than its predecessor,
  \<^verbatim>\<open>maxFreq\<close> throws \<^verbatim>\<open>NotSorted\<close>.
\<close>

theorem maxFreq_inverted_not_sorted:
  assumes "2 \<le> length times'"
    and "\<exists>i. Suc i < length times' \<and> times' ! Suc i < times' ! i"
  shows "maxFreq isSorted times' = Inl (NotSorted maxFreq_sort_msg)"
proof -
  have "\<not> isSorted times'" using assms(2) by (auto simp: isSorted_iff)
  then show ?thesis using assms(1) by (simp add: maxFreq_def)
qed

theorem maxFreq_inverted_not_sorted_witness:
  "maxFreq isSorted [2, 1] = Inl (NotSorted maxFreq_sort_msg) \<and>
   maxFreq isSorted [1, 3, 2] = Inl (NotSorted maxFreq_sort_msg)"
proof -
  have a: "\<exists>i. Suc i < length [2, 1 :: real] \<and> [2, 1 :: real] ! Suc i < [2, 1] ! i"
    by (rule exI [of _ 0]) simp
  have b: "\<exists>i. Suc i < length [1, 3, 2 :: real] \<and> [1, 3, 2 :: real] ! Suc i < [1, 3, 2] ! i"
    by (rule exI [of _ 1]) simp
  show ?thesis
    using maxFreq_inverted_not_sorted [of "[2, 1]", OF _ a]
      maxFreq_inverted_not_sorted [of "[1, 3, 2]", OF _ b]
    by simp
qed

text \<open>
  Two adjacent equal entries do not give \<^verbatim>\<open>NotSorted\<close>, as claim C7 has it: \<open>[1, 1]\<close>
  passes the sortedness check and reaches the scan, which finds no positive difference.
\<close>

theorem maxFreq_equal_entries_counterexample:
  "maxFreq isSorted [1, 1] = Inl (BadLightCurve maxFreq_unique_msg) \<and>
   maxFreq isSorted [1, 1] \<noteq> Inl (NotSorted maxFreq_sort_msg)"
  by (simp add: maxFreq_def)

subsection \<open>The regular grid of 100 points\<close>

lemma grid_deltaT: "deltaT (map real [0..<100]) = Inr 99"
  by (simp add: deltaT_def upt_conv_Cons)

lemma grid_scan: "maxFreq_scan (map real [0..<100]) 0 = 1"
  by (simp add: upt_conv_Cons)

lemma grid_sorted: "sorted (map real [0..<100])"
  by (simp add: sorted_iff_nth_mono)

text \<open>
  Claim C8, as amended. On \<open>[0, 1, \<dots>, 99]\<close>, \<^verbatim>\<open>deltaT\<close> returns 99, \<^verbatim>\<open>maxFreq\<close> returns
  0.5 (whenever its sortedness check accepts the grid), and \<^verbatim>\<open>pseudoNyquistFreq\<close>
  returns \<open>0.5 * 100 / 99 = 50 / 99\<close>.
\<close>

theorem regular_grid:
  "srt (map real [0..<100]) \<Longrightarrow>
   deltaT (map real [0..<100]) = Inr 99 \<and>
   maxFreq srt (map real [0..<100]) = Inr 0.5 \<and>
   pseudoNyquistFreq (map real [0..<100]) = Inr (50 / 99)"
  by (simp add: grid_deltaT pseudoNyquistFreq_def maxFreq_def grid_scan)

theorem regular_grid_witness:
  "deltaT (map real [0..<100]) = Inr 99 \<and>
   maxFreq sorted (map real [0..<100]) = Inr 0.5 \<and>
   pseudoNyquistFreq (map real [0..<100]) = Inr (50 / 99)"
  using regular_grid [of sorted] grid_sorted by simp

text \<open>The value 50.0 that claim C8 states for \<^verbatim>\<open>pseudoNyquistFreq\<close> is not returned.\<close>

theorem regular_grid_counterexample:
  "pseudoNyquistFreq (map real [0..<100]) \<noteq> Inr 50.0"
  by (simp add: grid_deltaT pseudoNyquistFreq_def)

section \<open>The transform: \<^verbatim>\<open>dft\<close>\<close>

subsection \<open>The validation loop\<close>

text \<open>
  Invariant of the loop: \<open>diffValues\<close> says that an entry before \<open>i\<close> differs from the
  first one, \<open>sortedTimes\<close> that no entry before \<open>i\<close> is smaller than its predecessor.
  The early exit happens only when both flags have their final values.
\<close>

lemma dft_check_inv:
  "i \<le> length xs \<Longrightarrow> d = (\<exists>k<i. xs ! k \<noteq> xs ! 0) \<Longrightarrow>
   s = (\<forall>k. Suc k < i \<longrightarrow> xs ! k \<le> xs ! Suc k) \<Longrightarrow>
   dft_check xs i d s =
     ((\<exists>k<length xs. xs ! k \<noteq> xs ! 0), (\<forall>k. Suc k < length xs \<longrightarrow> xs ! k \<le> xs ! Suc k))"
proof (induction xs i d s rule: dft_check.induct)
  case (1 xs i d s)
  show ?case
  proof (cases "i < length xs \<and> (\<not> d \<or> s)")
    case True
    let ?d = "if \<not> d \<and> xs ! i \<noteq> xs ! 0 then True else d"
    let ?s = "if s \<and> i > 0 \<and> xs ! (i - 1) > xs ! i then False else s"
    have d': "?d = (\<exists>k<i + 1. xs ! k \<noteq> xs ! 0)"
      using "1.prems"(2) by (auto simp: less_Suc_eq)
    have s': "?s = (\<forall>k. Suc k < i + 1 \<longrightarrow> xs ! k \<le> xs ! Suc k)"
    proof (cases i)
      case 0
      then show ?thesis using "1.prems"(3) by simp
    next
      case (Suc m)
      have "(\<forall>k. Suc k < Suc i \<longrightarrow> xs ! k \<le> xs ! Suc k) \<longleftrightarrow>
            (\<forall>k. Suc k < i \<longrightarrow> xs ! k \<le> xs ! Suc k) \<and> xs ! m \<le> xs ! i"
        using Suc by (auto simp: less_Suc_eq)
      then show ?thesis using "1.prems"(3) Suc by (auto simp: not_less)
    qed
    have le: "i + 1 \<le> length xs" using True by simp
    have "dft_check xs i d s = dft_check xs (i + 1) ?d ?s"
      using True by (subst dft_check.simps) simp
    also have "\<dots> = ((\<exists>k<length xs. xs ! k \<noteq> xs ! 0), (\<forall>k. Suc k < length xs \<longrightarrow> xs ! k \<le> xs ! Suc k))"
      using "1.IH" [OF True le d' s'] .
    finally show ?thesis .
  next
    case False
    have res: "dft_check xs i d s = (d, s)"
      by (subst dft_check.simps) (simp only: False if_False)
    from False have "i = length xs \<or> (d \<and> \<not> s)" using "1.prems"(1) by auto
    then show ?thesis
    proof
      assume "i = length xs"
      then show ?thesis using res "1.prems" by simp
    next
      assume ds: "d \<and> \<not> s"
      then obtain k where k: "k < i" "xs ! k \<noteq> xs ! 0" using "1.prems"(2) by auto
      have "k < length xs" using k(1) "1.prems"(1) by simp
      with k(2) have a: "\<exists>k<length xs. xs ! k \<noteq> xs ! 0" by blast
      from ds obtain k where "Suc k < i" "\<not> xs ! k \<le> xs ! Suc k" using "1.prems"(3) by auto
      then have b: "\<not> (\<forall>k. Suc k < length xs \<longrightarrow> xs ! k \<le> xs ! Suc k)"
        using "1.prems"(1) by (meson less_le_trans)
      show ?thesis using res ds a b by simp
    qed
  qed
qed

lemma two_values_iff:
  "(\<exists>k<length xs. xs ! k \<noteq> xs ! 0) \<longleftrightarrow> (\<exists>t \<in> set xs. \<exists>u \<in> set xs. t \<noteq> u)"
proof
  assume "\<exists>k<length xs. xs ! k \<noteq> xs ! 0"
  then obtain k where k: "k < length xs" "xs ! k \<noteq> xs ! 0" by auto
  then have "0 < length xs" by auto
  with k have "xs ! k \<in> set xs" "xs ! 0 \<in> set xs" by simp_all
  with k show "\<exists>t \<in> set xs. \<exists>u \<in> set xs. t \<noteq> u" by blast
next
  assume "\<exists>t \<in> set xs. \<exists>u \<in> set xs. t \<noteq> u"
  then obtain a b where "a < length xs" "b < length xs" "xs ! a \<noteq> xs ! b"
    by (auto simp: in_set_conv_nth)
  then show "\<exists>k<length xs. xs ! k \<noteq> xs ! 0" by metis
qed

lemma dft_check_eq:
  "dft_check xs 0 False True = ((\<exists>t \<in> set xs. \<exists>u \<in> set xs. t \<noteq> u), sorted xs)"
  using dft_check_inv [of 0 xs False True]
  by (simp add: two_values_iff sorted_iff_nth_Suc)

subsection \<open>The summation loops\<close>

lemma dft_inner_eq:
  "i < length tempDft \<Longrightarrow> j \<le> length xs \<Longrightarrow>
   dft_inner xs fluxes omega i j tempDft =
     tempDft[i := foldl (+) (tempDft ! i)
       (map (\<lambda>k. dft_term (fluxes ! k) omega (xs ! k)) [j..<length xs])]"
proof (induction xs fluxes omega i j tempDft rule: dft_inner.induct)
  case (1 xs fluxes omega i j tempDft)
  show ?case
  proof (cases "j < length xs")
    case True
    let ?t = "tempDft[i := tempDft ! i + dft_term (fluxes ! j) omega (xs ! j)]"
    have "dft_inner xs fluxes omega i j tempDft = dft_inner xs fluxes omega i (j + 1) ?t"
      using True by (subst dft_inner.simps) simp
    also have "\<dots> = ?t[i := foldl (+) (?t ! i)
       (map (\<lambda>k. dft_term (fluxes ! k) omega (xs ! k)) [j + 1..<length xs])]"
      using "1.IH" [OF True] "1.prems" True by simp
    also have "\<dots> = tempDft[i := foldl (+) (tempDft ! i)
       (map (\<lambda>k. dft_term (fluxes ! k) omega (xs ! k)) [j..<length xs])]"
      using True "1.prems"(1) by (simp add: upt_conv_Cons)
    finally show ?thesis .
  next
    case False
    then have "j = length xs" using "1.prems"(2) by simp
    then show ?thesis by (subst dft_inner.simps) simp
  qed
qed

lemma dft_outer_eq:
  "length tempDft = length freqs \<Longrightarrow> i \<le> length freqs \<Longrightarrow>
   dft_outer xs fluxes freqs i tempDft =
     take i tempDft @
     map (\<lambda>n. foldl (+) (tempDft ! n)
            (map (\<lambda>k. dft_term (fluxes ! k) (2 * pi * freqs ! n) (xs ! k)) [0..<length xs]))
       [i..<length freqs]"
proof (induction xs fluxes freqs i tempDft rule: dft_outer.induct)
  case (1 xs fluxes freqs i tempDft)
  let ?S = "\<lambda>t n. foldl (+) (t ! n)
            (map (\<lambda>k. dft_term (fluxes ! k) (2 * pi * freqs ! n) (xs ! k)) [0..<length xs])"
  show ?case
  proof (cases "i < length freqs")
    case True
    let ?t = "dft_inner xs fluxes (2 * pi * freqs ! i) i 0 tempDft"
    have t: "?t = tempDft[i := ?S tempDft i]"
      using True "1.prems"(1) by (simp add: dft_inner_eq)
    have "dft_outer xs fluxes freqs i tempDft = dft_outer xs fluxes freqs (i + 1) ?t"
      using True by (subst dft_outer.simps) simp
    also have "\<dots> = take (i + 1) ?t @ map (?S ?t) [i + 1..<length freqs]"
      using "1.IH" [OF True] "1.prems" True t by simp
    also have "take (i + 1) ?t = take i tempDft @ [?S tempDft i]"
      using True "1.prems"(1) by (simp add: t take_Suc_conv_app_nth)
    also have "map (?S ?t) [i + 1..<length freqs] = map (?S tempDft) [i + 1..<length freqs]"
      by (rule map_cong) (simp_all add: t)
    finally show ?thesis using True by (simp add: upt_conv_Cons)
  next
    case False
    then have "i = length freqs" using "1.prems"(2) by simp
    then show ?thesis using "1.prems"(1) by (subst dft_outer.simps) simp
  qed
qed

lemma dft_outer_init:
  "dft_outer xs fluxes freqs 0 (replicate (length freqs) 0) =
     map (\<lambda>f. foldl (+) 0
            (map (\<lambda>k. dft_term (fluxes ! k) (2 * pi * f) (xs ! k)) [0..<length xs])) freqs"
  by (rule nth_equalityI) (simp_all add: dft_outer_eq)

lemma dft_eq:
  "dft xs fluxes freqs out =
     (if \<not> (\<exists>t \<in> set xs. \<exists>u \<in> set xs. t \<noteq> u) then (Inl (BadLightCurve dft_unique_msg), out)
      else if \<not> sorted xs then (Inl (NotSorted dft_sort_msg), out)
      else if length fluxes \<noteq> length xs then
        (Inl (InvalidArgument (dft_length_msg (length xs) (length fluxes))), out)
      else (Inr (), map (\<lambda>f. foldl (+) 0
            (map (\<lambda>k. dft_term (fluxes ! k) (2 * pi * f) (xs ! k)) [0..<length xs])) freqs))"
  by (simp add: dft_def dft_check_eq dft_outer_init Let_def)

lemma foldl_plus_upt:
  "foldl (+) (a::complex) (map g [m..<n]) = a + (\<Sum>j = m..<n. g j)"
proof (induction n)
  case 0 show ?case by simp
next
  case (Suc n)
  show ?case
  proof (cases "m \<le> n")
    case True then show ?thesis using Suc by (simp add: add.assoc)
  next
    case False then show ?thesis by simp
  qed
qed

lemma dft_term_eq:
  "dft_term flux (2 * pi * f) t =
     complex_of_real flux * exp (- \<i> * complex_of_real (2 * pi * f * t))"
  by (simp add: dft_term_def mult.assoc)

lemma exp_minus_two_pi_i: "exp (- (\<i> * (complex_of_real pi * 2))) = 1"
  by (simp add: exp_minus exp_two_pi_i')

lemma exp_minus_two_pi_i2: "exp (- (\<i> * (2 * complex_of_real pi))) = 1"
  using exp_minus_two_pi_i by (simp add: mult.commute)

lemma exp_plus_two_pi_i: "exp (\<i> * (2 * complex_of_real pi)) = 1"
  using exp_two_pi_i' by (simp add: mult.commute)

lemma dft_eq_sum:
  "dft xs fluxes freqs out =
     (if \<not> (\<exists>t \<in> set xs. \<exists>u \<in> set xs. t \<noteq> u) then (Inl (BadLightCurve dft_unique_msg), out)
      else if \<not> sorted xs then (Inl (NotSorted dft_sort_msg), out)
      else if length fluxes \<noteq> length xs then
        (Inl (InvalidArgument (dft_length_msg (length xs) (length fluxes))), out)
      else (Inr (), map (\<lambda>f. \<Sum>j<length xs.
              complex_of_real (fluxes ! j) * exp (- \<i> * complex_of_real (2 * pi * f * xs ! j)))
            freqs))"
  by (simp add: dft_eq foldl_plus_upt dft_term_eq atLeast0LessThan)

subsection \<open>The numerals in the message\<close>

text \<open>\<open>lexical_cast\<close> writes a number so that reading the digits gives the number back.\<close>

lemma of_char_digit: "d < 10 \<Longrightarrow> of_char (digit d) = 48 + d"
proof -
  assume "d < 10"
  then have "d \<in> {0, 1, 2, 3, 4, 5, 6, 7, 8, 9}" by auto
  then show ?thesis by (auto simp: digit_def)
qed

lemma decimal_value_snoc:
  "decimal_value (cs @ [c]) = 10 * decimal_value cs + (of_char c - 48)"
  by (simp add: decimal_value_def)

lemma lexical_cast_decimal: "decimal_value (lexical_cast n) = n"
proof (induction n rule: lexical_cast.induct)
  case (1 n)
  show ?case
  proof (cases "n < 10")
    case True
    then show ?thesis
      by (subst lexical_cast.simps) (simp add: decimal_value_def of_char_digit)
  next
    case False
    then have "decimal_value (lexical_cast n) =
               10 * decimal_value (lexical_cast (n div 10)) + (of_char (digit (n mod 10)) - 48)"
      by (subst lexical_cast.simps) (simp add: decimal_value_snoc)
    then show ?thesis using 1 False by (simp add: of_char_digit)
  qed
qed

subsection \<open>The claims about \<^verbatim>\<open>dft\<close>\<close>

text \<open>
  Claim C1. If \<open>times'\<close> is non-decreasing and has at least two distinct values, and
  \<open>fluxes\<close> has the length of \<open>times'\<close>, then \<^verbatim>\<open>dft\<close> returns normally, the output has
  one entry for each frequency, and entry \<open>i\<close> is the sum, accumulated from 0 in the order
  of the samples \<open>j = 0, 1, \<dots>\<close>, of \<open>fluxes[j] * exp (- \<i> * 2 * pi * freqs[i] * times[j])\<close>.
\<close>

theorem dft_spectrum:
  assumes "sorted times'"
    and "\<exists>t \<in> set times'. \<exists>u \<in> set times'. t \<noteq> u"
    and "length fluxes = length times'"
  shows "fst (dft times' fluxes freqs out) = Inr () \<and>
         length (snd (dft times' fluxes freqs out)) = length freqs \<and>
         (\<forall>i<length freqs.
            snd (dft times' fluxes freqs out) ! i =
              foldl (+) 0 (map (\<lambda>j. complex_of_real (fluxes ! j) *
                  exp (- \<i> * complex_of_real (2 * pi * freqs ! i * times' ! j)))
                [0..<length times']) \<and>
            snd (dft times' fluxes freqs out) ! i =
              (\<Sum>j<length times'. complex_of_real (fluxes ! j) *
                  exp (- \<i> * complex_of_real (2 * pi * freqs ! i * times' ! j))))"
  using assms by (simp add: dft_eq dft_term_eq foldl_plus_upt atLeast0LessThan)

theorem dft_spectrum_witness:
  "fst (dft [0, 1] [1, 1] [1] []) = Inr () \<and> snd (dft [0, 1] [1, 1] [1] []) = [2]"
proof -
  have d: "\<exists>t \<in> set [0, 1 :: real]. \<exists>u \<in> set [0, 1 :: real]. t \<noteq> u" by auto
  have s: "sorted [0, 1 :: real]" by simp
  have l: "length [1, 1 :: real] = length [0, 1 :: real]" by simp
  note t = dft_spectrum [OF s d l, of "[1]" "[]"]
  from t have "length (snd (dft [0, 1] [1, 1] [1] [])) = 1" by simp
  moreover from t have "snd (dft [0, 1] [1, 1] [1] []) ! 0 = 2"
    by (simp add: exp_minus_two_pi_i2 lessThan_Suc numeral_2_eq_2)
  ultimately have "snd (dft [0, 1] [1, 1] [1] []) = [2]"
    by (cases "snd (dft [0, 1] [1, 1] [1] [])") simp_all
  with t show ?thesis by simp
qed

text \<open>
  Claim C2. The checks of \<^verbatim>\<open>dft\<close> come in a fixed order and the first that fails
  decides the exception: fewer than two distinct values in \<open>times'\<close> give
  \<^verbatim>\<open>BadLightCurve\<close>, whatever else is wrong; otherwise a list that is not sorted
  ascending gives \<^verbatim>\<open>NotSorted\<close>, whatever the length of \<open>fluxes\<close>; otherwise different
  lengths give \<^verbatim>\<open>invalid_argument\<close>, whose message contains both lengths in decimal
  (\<open>lexical_cast_decimal\<close>).
\<close>

theorem dft_check_order:
  "(\<not> (\<exists>t \<in> set times'. \<exists>u \<in> set times'. t \<noteq> u) \<longrightarrow>
      fst (dft times' fluxes freqs out) = Inl (BadLightCurve dft_unique_msg)) \<and>
   ((\<exists>t \<in> set times'. \<exists>u \<in> set times'. t \<noteq> u) \<and> \<not> sorted times' \<longrightarrow>
      fst (dft times' fluxes freqs out) = Inl (NotSorted dft_sort_msg)) \<and>
   ((\<exists>t \<in> set times'. \<exists>u \<in> set times'. t \<noteq> u) \<and> sorted times' \<and>
    length fluxes \<noteq> length times' \<longrightarrow>
      fst (dft times' fluxes freqs out) =
        Inl (InvalidArgument
          (''Arguments 'times' and 'fluxes' to dft() are not the same length (gave ''
           @ lexical_cast (length times') @ '' for times and ''
           @ lexical_cast (length fluxes) @ '' for fluxes)'')))"
  by (simp add: dft_eq dft_length_msg_def)

theorem dft_check_order_witness:
  "fst (dft [1, 1] [] [1] []) = Inl (BadLightCurve dft_unique_msg) \<and>
   fst (dft [2, 1] [5] [1] []) = Inl (NotSorted dft_sort_msg) \<and>
   fst (dft [0, 1, 2] [1, 1] [1] []) =
     Inl (InvalidArgument
       ''Arguments 'times' and 'fluxes' to dft() are not the same length (gave 3 for times and 2 for fluxes)'')"
proof -
  have a: "\<not> (\<exists>t \<in> set [1, 1 :: real]. \<exists>u \<in> set [1, 1 :: real]. t \<noteq> u)" by simp
  have b: "(\<exists>t \<in> set [2, 1 :: real]. \<exists>u \<in> set [2, 1 :: real]. t \<noteq> u) \<and> \<not> sorted [2, 1 :: real]"
    by auto
  have c: "(\<exists>t \<in> set [0, 1, 2 :: real]. \<exists>u \<in> set [0, 1, 2 :: real]. t \<noteq> u) \<and>
           sorted [0, 1, 2 :: real] \<and> length [1, 1 :: real] \<noteq> length [0, 1, 2 :: real]"
    by auto
  have l: "lexical_cast (Suc (Suc (Suc 0))) = ''3''" "lexical_cast (Suc (Suc 0)) = ''2''"
    by (simp_all add: lexical_cast.simps digit_def)
  show ?thesis
    using dft_check_order [of "[1, 1]" "[]" "[1]" "[]"] a
      dft_check_order [of "[2, 1]" "[5]" "[1]" "[]"] b
      dft_check_order [of "[0, 1, 2]" "[1, 1]" "[1]" "[]"] c
    by (simp add: l)
qed

text \<open>\<^verbatim>\<open>dft\<close> has no path that throws \<^verbatim>\<open>NegativeFreq\<close>.\<close>

lemma dft_never_negative_freq:
  "fst (dft times' fluxes freqs out) \<noteq> Inl (NegativeFreq m)"
  by (simp add: dft_eq)

text \<open>
  Claim C3 asks for a \<^verbatim>\<open>NegativeFreq\<close> exception when \<open>freqs\<close> has a negative entry
  and the other arguments are valid. On \<open>times' = [0, 1]\<close>, \<open>fluxes = [1, 1]\<close>,
  \<open>freqs = [-1]\<close> the function returns normally instead, with the spectrum \<open>[2]\<close>.
\<close>

theorem dft_negative_freq_accepted:
  "dft [0, 1] [1, 1] [- 1] out = (Inr (), [2])"
proof -
  have "\<exists>t \<in> set [0, 1 :: real]. \<exists>u \<in> set [0, 1 :: real]. t \<noteq> u" by auto
  then show ?thesis
    by (simp add: dft_eq_sum exp_plus_two_pi_i lessThan_Suc numeral_2_eq_2)
qed

text \<open>
  Claim C4. Whenever \<^verbatim>\<open>dft\<close> throws, the output argument holds what it held before the
  call. Whether the call throws does not depend on the output argument, and after a
  normal return the output is the temporary buffer, which does not depend on the former
  contents of the output argument either.
\<close>

theorem dft_failure_keeps_output:
  "(\<forall>e. fst (dft times' fluxes freqs out) = Inl e \<longrightarrow>
        snd (dft times' fluxes freqs out) = out) \<and>
   fst (dft times' fluxes freqs out) = fst (dft times' fluxes freqs out') \<and>
   (fst (dft times' fluxes freqs out) = Inr () \<longrightarrow>
      snd (dft times' fluxes freqs out) = snd (dft times' fluxes freqs out'))"
  by (simp add: dft_eq)

theorem dft_failure_keeps_output_witness:
  "fst (dft [1, 1] [3, 4] [1] [5, 6, 7]) = Inl (BadLightCurve dft_unique_msg) \<and>
   snd (dft [1, 1] [3, 4] [1] [5, 6, 7]) = [5, 6, 7] \<and>
   fst (dft [2, 1] [3, 4] [1] [5, 6, 7]) = Inl (NotSorted dft_sort_msg) \<and>
   snd (dft [2, 1] [3, 4] [1] [5, 6, 7]) = [5, 6, 7] \<and>
   fst (dft [1, 2] [3] [1] [5, 6, 7]) = Inl (InvalidArgument (dft_length_msg 2 1)) \<and>
   snd (dft [1, 2] [3] [1] [5, 6, 7]) = [5, 6, 7] \<and>
   fst (dft [0, 1] [1, 1] [1] [5, 6, 7]) = Inr () \<and>
   snd (dft [0, 1] [1, 1] [1] [5, 6, 7]) = snd (dft [0, 1] [1, 1] [1] [])"
proof -
  have a: "fst (dft [1, 1] [3, 4] [1] [5, 6, 7]) = Inl (BadLightCurve dft_unique_msg)"
    by (simp add: dft_eq)
  have "\<exists>t \<in> set [2, 1 :: real]. \<exists>u \<in> set [2, 1 :: real]. t \<noteq> u" by auto
  then have b: "fst (dft [2, 1] [3, 4] [1] [5, 6, 7]) = Inl (NotSorted dft_sort_msg)"
    by (simp add: dft_eq)
  have "\<exists>t \<in> set [1, 2 :: real]. \<exists>u \<in> set [1, 2 :: real]. t \<noteq> u" by auto
  then have c: "fst (dft [1, 2] [3] [1] [5, 6, 7]) = Inl (InvalidArgument (dft_length_msg 2 1))"
    by (simp add: dft_eq numeral_2_eq_2)
  have "\<exists>t \<in> set [0, 1 :: real]. \<exists>u \<in> set [0, 1 :: real]. t \<noteq> u" by auto
  then have d: "fst (dft [0, 1] [1, 1] [1] [5, 6, 7]) = Inr ()"
    by (simp add: dft_eq)
  show ?thesis
    using a b c d
      dft_failure_keeps_output [of "[1, 1]" "[3, 4]" "[1]" "[5, 6, 7]" "[]"]
      dft_failure_keeps_output [of "[2, 1]" "[3, 4]" "[1]" "[5, 6, 7]" "[]"]
      dft_failure_keeps_output [of "[1, 2]" "[3]" "[1]" "[5, 6, 7]" "[]"]
      dft_failure_keeps_output [of "[0, 1]" "[1, 1]" "[1]" "[5, 6, 7]" "[]"]
    by simp
qed

text \<open>
  Claim C10. The sortedness check of \<^verbatim>\<open>dft\<close> is not strict. For non-decreasing
  \<open>times'\<close> (adjacent entries may be equal) with two distinct values and \<open>fluxes\<close> of the
  same length, \<^verbatim>\<open>dft\<close> does not throw \<^verbatim>\<open>NotSorted\<close>: it returns normally and every
  sample \<open>j\<close>, also one that repeats a time stamp, has its own term in every entry of the
  spectrum. \<^verbatim>\<open>NotSorted\<close> is thrown exactly when some entry is strictly smaller than
  its predecessor.
\<close>

theorem dft_sortedness_nonstrict:
  "(sorted times' \<and> (\<exists>t \<in> set times'. \<exists>u \<in> set times'. t \<noteq> u) \<and>
    length fluxes = length times' \<longrightarrow>
      (\<forall>m. fst (dft times' fluxes freqs out) \<noteq> Inl (NotSorted m)) \<and>
      fst (dft times' fluxes freqs out) = Inr () \<and>
      snd (dft times' fluxes freqs out) =
        map (\<lambda>f. \<Sum>j<length times'. complex_of_real (fluxes ! j) *
                    exp (- \<i> * complex_of_real (2 * pi * f * times' ! j))) freqs) \<and>
   ((\<exists>m. fst (dft times' fluxes freqs out) = Inl (NotSorted m)) \<longleftrightarrow>
      (\<exists>i. 0 < i \<and> i < length times' \<and> times' ! (i - 1) > times' ! i))"
proof -
  have desc: "(\<exists>i. 0 < i \<and> i < length times' \<and> times' ! (i - 1) > times' ! i) \<longleftrightarrow> \<not> sorted times'"
  proof -
    have "(\<exists>i. 0 < i \<and> i < length times' \<and> times' ! (i - 1) > times' ! i) \<longleftrightarrow>
          (\<exists>k. Suc k < length times' \<and> times' ! k > times' ! Suc k)"
    proof
      assume "\<exists>i. 0 < i \<and> i < length times' \<and> times' ! (i - 1) > times' ! i"
      then obtain i where "0 < i" "i < length times'" "times' ! (i - 1) > times' ! i" by blast
      then have "Suc (i - 1) < length times' \<and> times' ! (i - 1) > times' ! Suc (i - 1)" by simp
      then show "\<exists>k. Suc k < length times' \<and> times' ! k > times' ! Suc k" by blast
    next
      assume "\<exists>k. Suc k < length times' \<and> times' ! k > times' ! Suc k"
      then obtain k where "Suc k < length times'" "times' ! k > times' ! Suc k" by blast
      then have "0 < Suc k \<and> Suc k < length times' \<and> times' ! (Suc k - 1) > times' ! Suc k" by simp
      then show "\<exists>i. 0 < i \<and> i < length times' \<and> times' ! (i - 1) > times' ! i" by blast
    qed
    then show ?thesis by (auto simp: sorted_iff_nth_Suc not_le)
  qed
  have two: "\<exists>t \<in> set times'. \<exists>u \<in> set times'. t \<noteq> u" if "\<not> sorted times'"
  proof (rule ccontr)
    assume "\<not> (\<exists>t \<in> set times'. \<exists>u \<in> set times'. t \<noteq> u)"
    then have "\<forall>i j. i \<le> j \<longrightarrow> j < length times' \<longrightarrow> times' ! i \<le> times' ! j"
      by (metis nth_mem order_le_less_trans order_refl)
    then have "sorted times'" by (simp add: sorted_iff_nth_mono)
    with that show False by simp
  qed
  show ?thesis
    unfolding desc using two by (auto simp: dft_eq_sum)
qed

theorem dft_sortedness_nonstrict_witness:
  "fst (dft [0, 0, 1] [1, 2, 3] [1] []) = Inr () \<and>
   snd (dft [0, 0, 1] [1, 2, 3] [1] []) = [6] \<and>
   fst (dft [0, 1, 0] [1, 2, 3] [1] []) = Inl (NotSorted dft_sort_msg)"
proof -
  have a: "sorted [0, 0, 1 :: real] \<and>
           (\<exists>t \<in> set [0, 0, 1 :: real]. \<exists>u \<in> set [0, 0, 1 :: real]. t \<noteq> u) \<and>
           length [1, 2, 3 :: real] = length [0, 0, 1 :: real]"
    by auto
  have b: "\<exists>i. 0 < i \<and> i < length [0, 1, 0 :: real] \<and>
               [0, 1, 0 :: real] ! (i - 1) > [0, 1, 0 :: real] ! i"
    by (rule exI [of _ 2]) simp
  have "\<exists>m. fst (dft [0, 1, 0] [1, 2, 3] [1] []) = Inl (NotSorted m)"
    using dft_sortedness_nonstrict [of "[0, 1, 0]" "[1, 2, 3]" "[1]" "[]"] b by blast
  then have c: "fst (dft [0, 1, 0] [1, 2, 3] [1] []) = Inl (NotSorted dft_sort_msg)"
    by (auto simp: dft_eq split: if_splits)
  show ?thesis
    using dft_sortedness_nonstrict [of "[0, 0, 1]" "[1, 2, 3]" "[1]" "[]"] a c
    by (simp add: exp_minus_two_pi_i2 lessThan_Suc numeral_3_eq_3)
qed

end
